theory Spec2Isabelle
  imports Main
begin

section \<open>Data model of \<open>file_store.py\<close>\<close>

text \<open>
  Chunk bytes are byte strings; \<open>char\<close> is an 8-bit value, so \<open>bytes\<close> are \<open>char list\<close>
  and \<open>len\<close> is \<open>length\<close>. Blob ids are an arbitrary type with equality.
\<close>

type_synonym bytes = string

text \<open>\<open>rdf_objects.SHA256HashID.FromBytes\<close>: the hash id wraps the digest bytes.\<close>

datatype SHA256HashID = FromBytes bytes

text \<open>
  \<open>rdf_objects.BlobReference(offset, size, blob_id)\<close>; the two numeric fields are
  unsigned. The field \<open>size\<close> is named \<open>size_ref\<close> here.
\<close>

record 'id BlobReference =
  offset :: nat
  size_ref :: nat
  blob_id :: 'id

text \<open>
  The exception classes of the module (lines 20-37), and the built-in exceptions that the
  code can raise: \<open>ValueError\<close> (line 152), \<open>IndexError\<close> from \<open>blob_refs[-1]\<close>
  (line 84), \<open>KeyError\<close> from a dictionary lookup (line 186) and \<open>TypeError\<close> from
  \<open>len(None)\<close> (line 190).
\<close>

datatype 'id error =
    BlobNotFound 'id
  | FileHasNoContent
  | MissingBlobReferences SHA256HashID
  | OversizedRead int int
  | ValueError int
  | IndexError
  | KeyError 'id
  | TypeError

text \<open>
  The blob backend \<open>data_store.BLOBS\<close>: for an id, the stored bytes, or \<open>None\<close> when the
  blob is not there.
\<close>

type_synonym 'id blob_store = "'id \<Rightarrow> bytes option"

text \<open>
  The state of a \<open>BlobStream\<close> object (lines 77-87). \<open>_offset\<close> is \<open>s_offset\<close> and
  \<open>_length\<close> is \<open>s_length\<close>; both are Python integers, and \<open>Seek\<close> can make the
  cursor negative.
\<close>

record 'id BlobStream =
  blob_refs :: "'id BlobReference list"
  hash_id :: SHA256HashID
  max_unbound_read :: int
  s_offset :: int
  s_length :: int
  current_ref :: "'id BlobReference option"
  current_chunk :: "bytes option"

section \<open>BlobStream\<close>

text \<open>
  \<open>__init__\<close> (lines 77-87). \<open>config.CONFIG["Server.max_unbound_read_size"]\<close> is the
  parameter \<open>m\<close>. \<open>self._blob_refs[-1]\<close> raises \<open>IndexError\<close> on an empty list; nothing
  else is checked.
\<close>

definition BlobStream_init ::
  "'id BlobReference list \<Rightarrow> SHA256HashID \<Rightarrow> int \<Rightarrow> 'id error + 'id BlobStream" where
  "BlobStream_init refs hid m =
     (if refs = [] then Inl IndexError
      else Inr \<lparr> blob_refs = refs, hash_id = hid, max_unbound_read = m,
                 s_offset = 0,
                 s_length = int (offset (last refs) + size_ref (last refs)),
                 current_ref = None, current_chunk = None \<rparr>)"

text \<open>The scan of lines 92-96: the first reference that covers the cursor.\<close>

fun find_ref :: "int \<Rightarrow> 'id BlobReference list \<Rightarrow> 'id BlobReference option" where
  "find_ref c [] = None"
| "find_ref c (r # rs) =
     (if c \<ge> int (offset r) \<and> c < int (offset r) + int (size_ref r) then Some r
      else find_ref c rs)"

text \<open>
  \<open>_GetChunk\<close> (lines 89-109). The result is \<open>None\<close> for \<open>return None, None\<close> and
  \<open>Some (chunk, ref)\<close> for \<open>return self._current_chunk, self._current_ref\<close>, where the
  current reference is the found one. It comes with the updated stream and the ids read
  from the backend by this call: \<open>ReadBlobs([found_ref.blob_id])\<close> answers with the
  dictionary that maps the id to the backend's entry for it. A found reference covers at
  least one byte, so its size is set and \<open>not found_ref\<close> holds for \<open>None\<close> only.
\<close>

definition GetChunk ::
  "'id blob_store \<Rightarrow> 'id BlobStream \<Rightarrow>
     (bytes option \<times> 'id BlobReference) option \<times> 'id BlobStream \<times> 'id list" where
  "GetChunk blobs s =
     (case find_ref (s_offset s) (blob_refs s) of
        None \<Rightarrow> (None, s, [])
      | Some found_ref \<Rightarrow>
          (if current_ref s \<noteq> Some found_ref
           then (Some (blobs (blob_id found_ref), found_ref),
                 s\<lparr> current_ref := Some found_ref,
                    current_chunk := blobs (blob_id found_ref) \<rparr>,
                 [blob_id found_ref])
           else (Some (current_chunk s, found_ref), s, [])))"

text \<open>Python slices \<open>xs[i:]\<close> and \<open>xs[:n]\<close>; a negative index counts from the end.\<close>

definition slice_from :: "'a list \<Rightarrow> int \<Rightarrow> 'a list" where
  "slice_from xs i = (if 0 \<le> i then drop (nat i) xs else drop (nat (int (length xs) + i)) xs)"

definition slice_to :: "'a list \<Rightarrow> int \<Rightarrow> 'a list" where
  "slice_to xs n = (if 0 \<le> n then take (nat n) xs else take (nat (int (length xs) + n)) xs)"

text \<open>
  The loop of \<open>Read\<close> (lines 123-133): \<open>result\<close> is the buffer, \<open>log\<close> collects the
  ids read from the backend.
\<close>

function Read_loop ::
  "'id blob_store \<Rightarrow> int \<Rightarrow> 'id BlobStream \<Rightarrow> bytes \<Rightarrow> 'id list \<Rightarrow>
     'id BlobStream \<times> bytes \<times> 'id list" where
  "Read_loop blobs len s result log =
     (if int (length result) < len then
        (case GetChunk blobs s of
           (None, s', fetched) \<Rightarrow> (s', result, log @ fetched)
         | (Some (None, ref), s', fetched) \<Rightarrow> (s', result, log @ fetched)
         | (Some (Some chunk, ref), s', fetched) \<Rightarrow>
             (if chunk = [] then (s', result, log @ fetched)
              else
                (let part = slice_from chunk (s_offset s' - int (offset ref)) in
                 if part = [] then (s', result, log @ fetched)
                 else Read_loop blobs len
                        (s'\<lparr> s_offset := s_offset s' + min len (int (length part)) \<rparr>)
                        (result @ part) (log @ fetched))))
      else (s, result, log))"
  by pat_completeness auto
termination
  by (relation "measure (\<lambda>(blobs, len, s, result, log). nat (len - int (length result)))") auto

declare Read_loop.simps [simp del]

text \<open>
  \<open>Read\<close> (lines 111-135): the outcome, the stream after the call and the ids read from
  the backend during the call.
\<close>

definition Read ::
  "'id blob_store \<Rightarrow> int option \<Rightarrow> 'id BlobStream \<Rightarrow>
     ('id error + bytes) \<times> 'id BlobStream \<times> 'id list" where
  "Read blobs length_arg s =
     (let len = (case length_arg of None \<Rightarrow> s_length s - s_offset s | Some l \<Rightarrow> l) in
      if len > max_unbound_read s then (Inl (OversizedRead len (max_unbound_read s)), s, [])
      else (case Read_loop blobs len s [] [] of
              (s', result, log) \<Rightarrow> (Inr (slice_to result len), s', log)))"

definition Tell :: "'id BlobStream \<Rightarrow> int" where
  "Tell s = s_offset s"

text \<open>\<open>os.SEEK_SET\<close>, \<open>os.SEEK_CUR\<close>, \<open>os.SEEK_END\<close>.\<close>

definition SEEK_SET :: int where "SEEK_SET = 0"
definition SEEK_CUR :: int where "SEEK_CUR = 1"
definition SEEK_END :: int where "SEEK_END = 2"

text \<open>\<open>Seek\<close> (lines 142-152).\<close>

definition Seek :: "int \<Rightarrow> int \<Rightarrow> 'id BlobStream \<Rightarrow> 'id error + 'id BlobStream" where
  "Seek off whence s =
     (if whence = SEEK_SET then Inr (s\<lparr> s_offset := off \<rparr>)
      else if whence = SEEK_CUR then Inr (s\<lparr> s_offset := s_offset s + off \<rparr>)
      else if whence = SEEK_END then Inr (s\<lparr> s_offset := s_length s + off \<rparr>)
      else Inl (ValueError whence))"

text \<open>The property \<open>size\<close> (lines 158-161).\<close>

definition size_BlobStream :: "'id BlobStream \<Rightarrow> int" where
  "size_BlobStream s = s_length s"

section \<open>Well-formed reference lists\<close>

text \<open>
  The invariant of a file's reference list: the first reference starts at \<open>b\<close> and each
  reference starts where its predecessor ends.
\<close>

fun contiguous_from :: "nat \<Rightarrow> 'id BlobReference list \<Rightarrow> bool" where
  "contiguous_from b [] = True"
| "contiguous_from b (r # rs) = (offset r = b \<and> contiguous_from (b + size_ref r) rs)"

text \<open>Every referenced chunk is in the backend and has the length its reference records.\<close>

definition chunks_present :: "'id blob_store \<Rightarrow> 'id BlobReference list \<Rightarrow> bool" where
  "chunks_present blobs refs =
     list_all (\<lambda>r. case blobs (blob_id r) of None \<Rightarrow> False
                    | Some d \<Rightarrow> length d = size_ref r) refs"

text \<open>The logical file: the chunks' bytes, concatenated in the order of the references.\<close>

definition file_content :: "'id blob_store \<Rightarrow> 'id BlobReference list \<Rightarrow> bytes" where
  "file_content blobs refs =
     concat (map (\<lambda>r. case blobs (blob_id r) of None \<Rightarrow> [] | Some d \<Rightarrow> d) refs)"

text \<open>
  A stream over a well-formed list: the list is non-empty, contiguous from 0 and backed by
  the store, \<open>_length\<close> is what \<open>__init__\<close> computed, and the cached chunk is the
  store's entry for the cached reference.
\<close>

definition cache_ok :: "'id blob_store \<Rightarrow> 'id BlobStream \<Rightarrow> bool" where
  "cache_ok blobs s =
     (case current_ref s of None \<Rightarrow> True | Some r \<Rightarrow> current_chunk s = blobs (blob_id r))"

definition stream_ok :: "'id blob_store \<Rightarrow> 'id BlobStream \<Rightarrow> bool" where
  "stream_ok blobs s =
     (blob_refs s \<noteq> [] \<and> contiguous_from 0 (blob_refs s) \<and>
      chunks_present blobs (blob_refs s) \<and>
      s_length s = int (offset (last (blob_refs s)) + size_ref (last (blob_refs s))) \<and>
      cache_ok blobs s)"

section \<open>AddFileWithUnknownHash\<close>

definition BLOBS_READ_BATCH_SIZE :: nat where
  "BLOBS_READ_BATCH_SIZE = 200"

text \<open>
  Modelled from the spec: \<open>collection.Batch\<close> is not among the sources. The ids are
  processed in consecutive batches of the batch size, in their order; the last batch may be
  shorter. \<open>batch\<close> is the batch being filled.
\<close>

fun Batch_loop :: "'a list \<Rightarrow> nat \<Rightarrow> 'a list \<Rightarrow> 'a list list" where
  "Batch_loop [] n batch = (if batch = [] then [] else [batch])"
| "Batch_loop (item # items) n batch =
     (if length (batch @ [item]) = n then (batch @ [item]) # Batch_loop items n []
      else Batch_loop items n (batch @ [item]))"

text \<open>
  Modelled from the spec: \<open>collection.Batch(items, size)\<close>, the batches of \<open>items\<close>
  in order, starting from an empty batch.
\<close>

definition Batch :: "'a list \<Rightarrow> nat \<Rightarrow> 'a list list" where
  "Batch items n = Batch_loop items n []"

text \<open>
  Modelled from the spec: \<open>data_store.BLOBS.ReadBlobs\<close> is not among the sources. It
  returns a mapping from each requested id to its bytes, or to \<open>None\<close> when the blob is
  not found. The dictionary is an association list in the order in which the backend
  returns the entries.
\<close>

definition ReadBlobs :: "'id blob_store \<Rightarrow> 'id list \<Rightarrow> ('id \<times> bytes option) list" where
  "ReadBlobs blobs ids = map (\<lambda>k. (k, blobs k)) ids"

text \<open>Lines 181-183: the first entry without data, in the dictionary's order, is reported.\<close>

fun raise_if_missing :: "('id \<times> bytes option) list \<Rightarrow> 'id error + unit" where
  "raise_if_missing [] = Inr ()"
| "raise_if_missing ((k, v) # kvs) =
     (case v of None \<Rightarrow> Inl (BlobNotFound k) | Some _ \<Rightarrow> raise_if_missing kvs)"

text \<open>
  Lines 185-195, over the batch in its original order. The state is \<open>blob_refs\<close>,
  \<open>offset\<close> and the hash object, which is modelled by the bytes fed to it so far
  (\<open>update(a); update(b)\<close> is \<open>update(a + b)\<close>).
\<close>

fun add_blob_ids ::
  "('id \<times> bytes option) list \<Rightarrow> 'id list \<Rightarrow>
     'id BlobReference list \<times> nat \<times> bytes \<Rightarrow>
     'id error + 'id BlobReference list \<times> nat \<times> bytes" where
  "add_blob_ids data [] st = Inr st"
| "add_blob_ids data (bid # rest) (refs, off, sha) =
     (case map_of data bid of
        None \<Rightarrow> Inl (KeyError bid)
      | Some None \<Rightarrow> Inl TypeError
      | Some (Some blob_data) \<Rightarrow>
          add_blob_ids data rest
            (refs @ [\<lparr> offset = off, size_ref = length blob_data, blob_id = bid \<rparr>],
             off + length blob_data,
             sha @ blob_data))"

text \<open>
  Lines 178-195. \<open>set(blob_ids_batch)\<close> has no order of its own: \<open>ord\<close> gives the order
  in which the backend returns the entries of the deduplicated batch.
\<close>

fun add_batches ::
  "('id list \<Rightarrow> 'id list) \<Rightarrow> 'id blob_store \<Rightarrow> 'id list list \<Rightarrow>
     'id BlobReference list \<times> nat \<times> bytes \<Rightarrow>
     'id error + 'id BlobReference list \<times> nat \<times> bytes" where
  "add_batches ord blobs [] st = Inr st"
| "add_batches ord blobs (blob_ids_batch # batches) st =
     (let unique_ids = ord (remdups blob_ids_batch);
          data = ReadBlobs blobs unique_ids
      in case raise_if_missing data of
           Inl e \<Rightarrow> Inl e
         | Inr _ \<Rightarrow>
             (case add_blob_ids data blob_ids_batch st of
                Inl e \<Rightarrow> Inl e
              | Inr st' \<Rightarrow> add_batches ord blobs batches st'))"

text \<open>
  Modelled from the spec: the metadata backend \<open>data_store.REL_DB\<close> is not among the
  sources. \<open>path_infos\<close> answers \<open>ReadLatestPathInfosWithHashBlobReferences\<close> for one
  path and an optional timestamp ceiling (\<open>None\<close> when there is no binding);
  \<open>hash_blob_refs\<close> is the table behind \<open>ReadHashBlobReferences\<close> and
  \<open>WriteHashBlobReferences\<close> (\<open>None\<close> when the hash has no list). Of a path info only
  \<open>hash_entry.sha256\<close> is used.
\<close>

record PathInfo =
  hash_entry_sha256 :: bytes

text \<open>
  Modelled from the spec: the state of \<open>data_store.REL_DB\<close>, as far as this module
  reads and writes it.
\<close>

record ('p, 't, 'id) REL_DB =
  path_infos :: "'p \<Rightarrow> 't option \<Rightarrow> PathInfo option"
  hash_blob_refs :: "SHA256HashID \<Rightarrow> 'id BlobReference list option"

text \<open>
  \<open>AddFileWithUnknownHash\<close> (lines 172-200): the outcome and the metadata backend after
  the call. \<open>sha256\<close> is the digest function of \<open>hashlib\<close>.
\<close>

definition AddFileWithUnknownHash ::
  "(bytes \<Rightarrow> bytes) \<Rightarrow> ('id list \<Rightarrow> 'id list) \<Rightarrow> 'id blob_store \<Rightarrow>
     ('p, 't, 'id) REL_DB \<Rightarrow> 'id list \<Rightarrow>
     ('id error + SHA256HashID) \<times> ('p, 't, 'id) REL_DB" where
  "AddFileWithUnknownHash sha256 ord blobs db blob_ids =
     (case add_batches ord blobs (Batch blob_ids BLOBS_READ_BATCH_SIZE) ([], 0, []) of
        Inl e \<Rightarrow> (Inl e, db)
      | Inr (refs, off, sha) \<Rightarrow>
          (let hid = FromBytes (sha256 sha)
           in (Inr hid, db\<lparr> hash_blob_refs := (hash_blob_refs db)(hid \<mapsto> refs) \<rparr>)))"

section \<open>OpenFile\<close>

text \<open>\<open>OpenFile\<close> (lines 256-288); \<open>m\<close> is the configured read ceiling.\<close>

definition OpenFile ::
  "('p, 't, 'id) REL_DB \<Rightarrow> int \<Rightarrow> 'p \<Rightarrow> 't option \<Rightarrow> 'id error + 'id BlobStream" where
  "OpenFile db m client_path max_timestamp =
     (case path_infos db client_path max_timestamp of
        None \<Rightarrow> Inl FileHasNoContent
      | Some path_info \<Rightarrow>
          (let hid = FromBytes (hash_entry_sha256 path_info)
           in case hash_blob_refs db hid of
                None \<Rightarrow> Inl (MissingBlobReferences hid)
              | Some blob_references \<Rightarrow> BlobStream_init blob_references hid m))"

section \<open>Example data\<close>

definition ex_blobs :: "nat blob_store" where
  "ex_blobs k = (if k = 1 then Some ''f'' else if k = 2 then Some ''oobarbazqu'' else None)"

definition ex_refs :: "nat BlobReference list" where
  "ex_refs = [\<lparr> offset = 0, size_ref = 1, blob_id = 1 \<rparr>,
              \<lparr> offset = 1, size_ref = 10, blob_id = 2 \<rparr>]"

definition ex_stream :: "nat BlobStream" where
  "ex_stream = \<lparr> blob_refs = ex_refs, hash_id = FromBytes [], max_unbound_read = 100,
                 s_offset = 0, s_length = 11, current_ref = None, current_chunk = None \<rparr>"

text \<open>
  A metadata backend: \<open>/tmp/x\<close> was never collected, every other path is bound to the
  hash made of its own name; \<open>/foo\<close> has the example references, \<open>/empty\<close> has an empty
  list and no other hash has a list.
\<close>

definition ex_db :: "(string, nat, nat) REL_DB" where
  "ex_db = \<lparr> path_infos = (\<lambda>p t. if p = ''/tmp/x'' then None
                                  else Some \<lparr> hash_entry_sha256 = p \<rparr>),
             hash_blob_refs = [FromBytes ''/empty'' \<mapsto> [], FromBytes ''/foo'' \<mapsto> ex_refs] \<rparr>"

section \<open>Properties of BlobStream construction\<close>

text \<open>
  C10. Constructing a \<open>BlobStream\<close> over an empty reference list raises (the
  \<open>IndexError\<close> of \<open>blob_refs[-1]\<close>, which is not an error of the module), so a
  constructed reader holds a non-empty reference list, and its size is the last
  reference's offset plus its size.
\<close>

theorem BlobStream_init_empty_raises:
  "BlobStream_init [] hid m = (Inl IndexError :: 'id error + 'id BlobStream) \<and>
   (BlobStream_init refs hid m = Inr s \<longrightarrow>
      refs \<noteq> [] \<and> blob_refs s = refs \<and>
      size_BlobStream s = int (offset (last refs) + size_ref (last refs)))"
  by (auto simp: BlobStream_init_def size_BlobStream_def split: if_splits)

theorem BlobStream_init_empty_raises_witness:
  "BlobStream_init ex_refs (FromBytes []) 100 = Inr ex_stream \<and>
   ex_refs \<noteq> [] \<and> blob_refs ex_stream = ex_refs \<and> size_BlobStream ex_stream = 11"
  using BlobStream_init_empty_raises [of "FromBytes []" 100 ex_refs ex_stream]
  by (simp add: BlobStream_init_def ex_refs_def ex_stream_def)

text \<open>
  C5, as stated, fails: a list that is unsorted, not contiguous and does not start at
  offset 0 is accepted, and the reader's size is taken from the last reference alone.
\<close>

theorem BlobStream_init_accepts_malformed:
  "BlobStream_init
     [\<lparr> offset = 7, size_ref = 3, blob_id = (2::nat) \<rparr>,
      \<lparr> offset = 0, size_ref = 4, blob_id = 1 \<rparr>] (FromBytes []) 100
   = Inr \<lparr> blob_refs = [\<lparr> offset = 7, size_ref = 3, blob_id = 2 \<rparr>,
                        \<lparr> offset = 0, size_ref = 4, blob_id = 1 \<rparr>],
           hash_id = FromBytes [], max_unbound_read = 100, s_offset = 0, s_length = 4,
           current_ref = None, current_chunk = None \<rparr>"
  by (simp add: BlobStream_init_def)

text \<open>
  C5, amended. Construction validates neither order nor contiguity: it fails exactly when
  the reference list is empty, and then with \<open>IndexError\<close>; every non-empty list yields
  a reader over that list with cursor 0, an empty cache and the size computed from the
  last reference.
\<close>

theorem BlobStream_init_fails_iff_empty:
  "((\<exists>e. BlobStream_init refs hid m = Inl e) \<longleftrightarrow> refs = []) \<and>
   (BlobStream_init refs hid m = Inl e \<longrightarrow> e = IndexError) \<and>
   (refs \<noteq> [] \<longrightarrow>
      (\<exists>s. BlobStream_init refs hid m = Inr s \<and> blob_refs s = refs \<and> Tell s = 0 \<and>
           current_ref s = None \<and>
           size_BlobStream s = int (offset (last refs) + size_ref (last refs))))"
  by (auto simp: BlobStream_init_def size_BlobStream_def Tell_def)

theorem BlobStream_init_fails_iff_empty_witness:
  "[\<lparr> offset = 7, size_ref = 3, blob_id = (2::nat) \<rparr>] \<noteq> [] \<and>
   (\<exists>s. BlobStream_init [\<lparr> offset = 7, size_ref = 3, blob_id = (2::nat) \<rparr>] (FromBytes []) 100 = Inr s \<and>
        size_BlobStream s = 10) \<and>
   (BlobStream_init ([] :: nat BlobReference list) (FromBytes []) 100 = Inl IndexError)"
  using BlobStream_init_fails_iff_empty
          [of "[\<lparr> offset = 7, size_ref = 3, blob_id = (2::nat) \<rparr>]" "FromBytes []" 100]
        BlobStream_init_fails_iff_empty
          [of "[] :: nat BlobReference list" "FromBytes []" 100 IndexError]
  by (auto simp: BlobStream_init_def)

section \<open>The read ceiling\<close>

text \<open>
  C6. With ceiling \<open>M = max_unbound_read\<close>: \<open>Read(M + 1)\<close> fails with
  \<open>OversizedRead\<close>, leaves the stream as it was and reads nothing from the backend;
  \<open>Read(M)\<close> succeeds; a \<open>Read\<close> without length is the \<open>Read\<close> of the total size minus
  the cursor, so it fails with \<open>OversizedRead\<close> when that remainder exceeds \<open>M\<close>.
\<close>

theorem Read_oversized_guard:
  "Read blobs (Some (max_unbound_read s + 1)) s
     = (Inl (OversizedRead (max_unbound_read s + 1) (max_unbound_read s)), s, []) \<and>
   (\<exists>bs s' log. Read blobs (Some (max_unbound_read s)) s = (Inr bs, s', log)) \<and>
   Read blobs None s = Read blobs (Some (s_length s - s_offset s)) s \<and>
   (s_length s - s_offset s > max_unbound_read s \<longrightarrow>
      Read blobs None s
        = (Inl (OversizedRead (s_length s - s_offset s) (max_unbound_read s)), s, []))"
  by (auto simp: Read_def Let_def split: prod.splits)

theorem Read_oversized_guard_witness:
  "s_length (ex_stream\<lparr> max_unbound_read := 10 \<rparr>) - s_offset (ex_stream\<lparr> max_unbound_read := 10 \<rparr>) > 10 \<and>
   Read ex_blobs None (ex_stream\<lparr> max_unbound_read := 10 \<rparr>)
     = (Inl (OversizedRead 11 10), ex_stream\<lparr> max_unbound_read := 10 \<rparr>, []) \<and>
   Read ex_blobs (Some 11) (ex_stream\<lparr> max_unbound_read := 10 \<rparr>)
     = (Inl (OversizedRead 11 10), ex_stream\<lparr> max_unbound_read := 10 \<rparr>, [])"
  using Read_oversized_guard [of ex_blobs "ex_stream\<lparr> max_unbound_read := 10 \<rparr>"]
  by (simp add: ex_stream_def)

section \<open>The cursor after a read\<close>

text \<open>
  C4. On the contiguous list of a 1-byte chunk followed by a 10-byte chunk, \<open>Read(5)\<close>
  from cursor 0 returns the 5 bytes \<open>fooba\<close>, but line 133 adds \<open>min(length, len(part))\<close>
  for each chunk touched, 1 and then 5, so \<open>Tell()\<close> is 6 afterwards and not 5.
\<close>

theorem Read_across_chunks_overshoots:
  "Read ex_blobs (Some 5) ex_stream
     = (Inr ''fooba'',
        ex_stream\<lparr> s_offset := 6,
                   current_ref := Some \<lparr> offset = 1, size_ref = 10, blob_id = 2 \<rparr>,
                   current_chunk := Some ''oobarbazqu'' \<rparr>,
        [1, 2]) \<and>
   Tell (fst (snd (Read ex_blobs (Some 5) ex_stream))) = 6"
  by code_simp

section \<open>Locating chunks\<close>

lemma find_ref_Some:
  "find_ref c refs = Some r \<Longrightarrow>
     r \<in> set refs \<and> int (offset r) \<le> c \<and> c < int (offset r) + int (size_ref r)"
  by (induction refs) (auto split: if_splits)

lemma find_ref_negative: "c < 0 \<Longrightarrow> find_ref c refs = None"
  by (induction refs) auto

lemma file_content_Cons:
  "file_content blobs (r # rs) =
     (case blobs (blob_id r) of None \<Rightarrow> [] | Some d \<Rightarrow> d) @ file_content blobs rs"
  by (simp add: file_content_def)

lemma chunks_present_Cons:
  "chunks_present blobs (r # rs) =
     ((\<exists>d. blobs (blob_id r) = Some d \<and> length d = size_ref r) \<and> chunks_present blobs rs)"
  by (auto simp: chunks_present_def split: option.splits)

lemma length_file_content:
  "contiguous_from b refs \<Longrightarrow> chunks_present blobs refs \<Longrightarrow> refs \<noteq> [] \<Longrightarrow>
     offset (last refs) + size_ref (last refs) = b + length (file_content blobs refs)"
proof (induction refs arbitrary: b)
  case Nil
  then show ?case by simp
next
  case (Cons r rs)
  show ?case
  proof (cases "rs = []")
    case True
    with Cons.prems show ?thesis
      by (auto simp: chunks_present_Cons file_content_Cons file_content_def)
  next
    case False
    with Cons.prems Cons.IH [of "b + size_ref r"] show ?thesis
      by (auto simp: chunks_present_Cons file_content_Cons)
  qed
qed

lemma find_ref_content:
  "contiguous_from b refs \<Longrightarrow> chunks_present blobs refs \<Longrightarrow> int b \<le> c \<Longrightarrow>
     (case find_ref c refs of
        None \<Rightarrow> int b + int (length (file_content blobs refs)) \<le> c
      | Some r \<Rightarrow>
          (\<exists>d. blobs (blob_id r) = Some d \<and> length d = size_ref r \<and>
               drop (nat (c - int b)) (file_content blobs refs) =
                 drop (nat (c - int (offset r))) d @
                 drop (nat (int (offset r + size_ref r) - int b)) (file_content blobs refs)))"
proof (induction refs arbitrary: b)
  case Nil
  then show ?case by (simp add: file_content_def)
next
  case (Cons r rs)
  from Cons.prems obtain d where d: "blobs (blob_id r) = Some d" "length d = size_ref r"
    and rs: "chunks_present blobs rs" "contiguous_from (b + size_ref r) rs" and b: "offset r = b"
    by (auto simp: chunks_present_Cons)
  show ?case
  proof (cases "c < int b + int (size_ref r)")
    case True
    with Cons.prems d b show ?thesis
      by (simp add: file_content_Cons)
  next
    case False
    then have c: "int (b + size_ref r) \<le> c" by simp
    have eq: "find_ref c (r # rs) = find_ref c rs"
      using False b by simp
    note IH = Cons.IH [OF rs(2) rs(1) c]
    show ?thesis
    proof (cases "find_ref c rs")
      case None
      with IH eq d show ?thesis by (simp add: file_content_Cons)
    next
      case (Some r')
      with IH obtain d' where d': "blobs (blob_id r') = Some d'" "length d' = size_ref r'"
        and dr: "drop (nat (c - int (b + size_ref r))) (file_content blobs rs) =
                 drop (nat (c - int (offset r'))) d' @
                 drop (nat (int (offset r' + size_ref r') - int (b + size_ref r))) (file_content blobs rs)"
        by auto
      from find_ref_Some [OF Some] have r': "int (offset r') \<le> c" "c < int (offset r') + int (size_ref r')"
        by auto
      have 1: "nat (c - int b) - length d = nat (c - int (b + size_ref r))"
        using c d by simp
      have 2: "nat (int (offset r' + size_ref r') - int b) - length d
                 = nat (int (offset r' + size_ref r') - int (b + size_ref r))"
        using c d r' by simp
      show ?thesis
        using eq Some d d' dr c r' 1 2 by (simp add: file_content_Cons)
    qed
  qed
qed

lemma GetChunk_stream_ok:
  assumes "stream_ok blobs s" and "GetChunk blobs s = (res, s', fetched)"
  shows "stream_ok blobs s' \<and> s_offset s' = s_offset s \<and> blob_refs s' = blob_refs s \<and>
         s_length s' = s_length s \<and> max_unbound_read s' = max_unbound_read s \<and>
         res = map_option (\<lambda>r. (blobs (blob_id r), r)) (find_ref (s_offset s) (blob_refs s))"
  using assms
  by (auto simp: GetChunk_def stream_ok_def cache_ok_def split: option.splits if_splits)

lemma stream_ok_offset [simp]:
  "stream_ok blobs (s\<lparr> s_offset := c \<rparr>) = stream_ok blobs s"
  by (simp add: stream_ok_def cache_ok_def split: option.splits)

lemma stream_ok_find_ref:
  assumes ok: "stream_ok blobs s" and c: "0 \<le> c"
  shows "case find_ref c (blob_refs s) of
           None \<Rightarrow> s_length s \<le> c
         | Some r \<Rightarrow>
             (\<exists>d. blobs (blob_id r) = Some d \<and> length d = size_ref r \<and>
                  int (offset r) \<le> c \<and> c < int (offset r) + int (size_ref r) \<and>
                  drop (nat c) (file_content blobs (blob_refs s)) =
                    drop (nat (c - int (offset r))) d @
                    drop (offset r + size_ref r) (file_content blobs (blob_refs s)))"
proof -
  from ok have cf: "contiguous_from 0 (blob_refs s)" and cp: "chunks_present blobs (blob_refs s)"
    and ne: "blob_refs s \<noteq> []"
    and len: "s_length s = int (offset (last (blob_refs s)) + size_ref (last (blob_refs s)))"
    by (auto simp: stream_ok_def)
  from length_file_content [OF cf cp ne] len
  have N: "s_length s = int (length (file_content blobs (blob_refs s)))" by simp
  from c have "int 0 \<le> c" by simp
  from find_ref_content [OF cf cp this] N show ?thesis
    by (auto simp: nat_int_add split: option.splits dest: find_ref_Some)
qed

lemma Read_loop_result:
  "stream_ok blobs s \<Longrightarrow> 0 \<le> s_offset s \<Longrightarrow>
     take (nat len) (fst (snd (Read_loop blobs len s result log))) =
     take (nat len) (result @ drop (nat (s_offset s)) (file_content blobs (blob_refs s)))"
proof (induction blobs len s result log rule: Read_loop.induct)
  case (1 blobs len s result log)
  let ?F = "file_content blobs (blob_refs s)"
  show ?case
  proof (cases "int (length result) < len")
    case False
    then show ?thesis by (simp add: Read_loop.simps)
  next
    case True
    obtain res s' fetched where G: "GetChunk blobs s = (res, s', fetched)"
      by (cases "GetChunk blobs s") auto
    note ok = GetChunk_stream_ok [OF "1.prems"(1) G]
    note fr = stream_ok_find_ref [OF "1.prems"(1) "1.prems"(2)]
    show ?thesis
    proof (cases "find_ref (s_offset s) (blob_refs s)")
      case None
      with fr "1.prems" have "drop (nat (s_offset s)) ?F = []"
        using length_file_content [of 0 "blob_refs s" blobs]
        by (simp add: stream_ok_def)
      with None ok G True show ?thesis
        by (simp add: Read_loop.simps [of blobs len s])
    next
      case (Some r)
      with fr obtain d where d: "blobs (blob_id r) = Some d" "length d = size_ref r"
        and r: "int (offset r) \<le> s_offset s" "s_offset s < int (offset r) + int (size_ref r)"
        and dr: "drop (nat (s_offset s)) ?F =
                   drop (nat (s_offset s - int (offset r))) d @
                   drop (offset r + size_ref r) ?F"
        by auto
      define part where "part = drop (nat (s_offset s - int (offset r))) d"
      have part: "slice_from d (s_offset s' - int (offset r)) = part"
        using ok r by (simp add: slice_from_def part_def)
      have ne: "d \<noteq> []" "part \<noteq> []"
        using d r by (auto simp: part_def)
      have lp: "int (length part) = int (offset r) + int (size_ref r) - s_offset s"
        using d r by (simp add: part_def)
      let ?s2 = "s'\<lparr> s_offset := s_offset s' + min len (int (length part)) \<rparr>"
      have res: "res = Some (Some d, r)" using ok Some d by simp
      have step: "Read_loop blobs len s result log
                    = Read_loop blobs len ?s2 (result @ part) (log @ fetched)"
        using True G res ne part by (simp add: Read_loop.simps [of blobs len s] Let_def)
      have ok2: "stream_ok blobs ?s2" "0 \<le> s_offset ?s2"
        using ok "1.prems" True by auto
      have IH: "take (nat len) (fst (snd (Read_loop blobs len ?s2 (result @ part) (log @ fetched)))) =
                take (nat len) ((result @ part) @ drop (nat (s_offset ?s2)) (file_content blobs (blob_refs ?s2)))"
        using "1.IH" [OF True G [symmetric] res refl refl refl ne(1) part [symmetric] ne(2) ok2]
        by simp
      have F2: "file_content blobs (blob_refs ?s2) = ?F"
        using ok by simp
      have dr': "result @ drop (nat (s_offset s)) ?F
                   = (result @ part) @ drop (offset r + size_ref r) ?F"
        using dr by (simp add: part_def)
      show ?thesis
      proof (cases "int (length part) \<le> len")
        case le: True
        then have "nat (s_offset ?s2) = offset r + size_ref r"
          using ok lp by (simp add: min_def nat_int_add)
        with IH F2 have "take (nat len) (fst (snd (Read_loop blobs len ?s2 (result @ part) (log @ fetched))))
                      = take (nat len) ((result @ part) @ drop (offset r + size_ref r) ?F)"
          by simp
        then show ?thesis by (simp only: step dr')
      next
        case gt: False
        then have "nat len \<le> length (result @ part)" by simp
        then have "take (nat len) ((result @ part) @ X) = take (nat len) ((result @ part) @ Y)" for X Y
          by simp
        from this [of "drop (nat (s_offset ?s2)) (file_content blobs (blob_refs ?s2))"
                      "drop (offset r + size_ref r) ?F"] IH
        have "take (nat len) (fst (snd (Read_loop blobs len ?s2 (result @ part) (log @ fetched))))
                      = take (nat len) ((result @ part) @ drop (offset r + size_ref r) ?F)"
          by simp
        then show ?thesis by (simp only: step dr')
      qed
    qed
  qed
qed

lemma Read_loop_stream_ok:
  "stream_ok blobs s \<Longrightarrow>
     stream_ok blobs (fst (Read_loop blobs len s result log)) \<and>
     blob_refs (fst (Read_loop blobs len s result log)) = blob_refs s \<and>
     s_length (fst (Read_loop blobs len s result log)) = s_length s \<and>
     max_unbound_read (fst (Read_loop blobs len s result log)) = max_unbound_read s"
proof (induction blobs len s result log rule: Read_loop.induct)
  case (1 blobs len s result log)
  obtain res s' fetched where G: "GetChunk blobs s = (res, s', fetched)"
    by (cases "GetChunk blobs s") auto
  note ok = GetChunk_stream_ok [OF "1.prems" G]
  show ?case
  proof (cases "int (length result) < len \<and> (\<exists>chunk ref. res = Some (Some chunk, ref) \<and> chunk \<noteq> []
                   \<and> slice_from chunk (s_offset s' - int (offset ref)) \<noteq> [])")
    case False
    with G ok "1.prems" show ?thesis
      by (auto simp: Read_loop.simps [of blobs len s] Let_def split: option.splits)
  next
    case True
    then obtain chunk ref where c: "int (length result) < len" "res = Some (Some chunk, ref)"
      "chunk \<noteq> []" "slice_from chunk (s_offset s' - int (offset ref)) \<noteq> []"
      by auto
    define part where "part = slice_from chunk (s_offset s' - int (offset ref))"
    let ?s2 = "s'\<lparr> s_offset := s_offset s' + min len (int (length part)) \<rparr>"
    have step: "Read_loop blobs len s result log
                  = Read_loop blobs len ?s2 (result @ part) (log @ fetched)"
      using c G by (simp add: Read_loop.simps [of blobs len s] Let_def part_def)
    have "stream_ok blobs ?s2" using ok by simp
    from "1.IH" [OF c(1) G [symmetric] c(2) refl refl refl c(3) part_def _ this] c(4) ok
    show ?thesis by (simp add: step part_def)
  qed
qed

lemma stream_ok_length:
  "stream_ok blobs s \<Longrightarrow> int (length (file_content blobs (blob_refs s))) = s_length s"
  using length_file_content [of 0 "blob_refs s" blobs] by (simp add: stream_ok_def)

lemma Read_result:
  assumes ok: "stream_ok blobs s" and c: "0 \<le> s_offset s" and L: "L \<le> max_unbound_read s"
  shows "fst (Read blobs (Some L) s) =
           Inr (take (nat L) (drop (nat (s_offset s)) (file_content blobs (blob_refs s))))"
proof (cases "0 \<le> L")
  case True
  obtain s' result log where R: "Read_loop blobs L s [] [] = (s', result, log)"
    by (cases "Read_loop blobs L s [] []") auto
  from Read_loop_result [OF ok c, of L "[]" "[]"] R
  have "take (nat L) result = take (nat L) (drop (nat (s_offset s)) (file_content blobs (blob_refs s)))"
    by simp
  with L R True show ?thesis by (simp add: Read_def slice_to_def)
next
  case False
  then have "Read_loop blobs L s [] [] = (s, [], [])"
    by (simp add: Read_loop.simps)
  with L False show ?thesis by (simp add: Read_def slice_to_def)
qed

lemma Read_negative_cursor:
  assumes "s_offset s < 0" and "L \<le> max_unbound_read s"
  shows "Read blobs (Some L) s = (Inr [], s, [])"
proof -
  have "Read_loop blobs L s [] [] = (s, [], [])"
    using assms(1) by (simp add: Read_loop.simps GetChunk_def find_ref_negative)
  with assms(2) show ?thesis by (simp add: Read_def slice_to_def)
qed

lemma Read_stream_ok:
  "stream_ok blobs s \<Longrightarrow> stream_ok blobs (fst (snd (Read blobs length_arg s)))"
  using Read_loop_stream_ok [of blobs s]
  by (auto simp: Read_def Let_def split: prod.splits option.splits) (metis fst_conv)+

lemma Seek_stream_ok:
  "stream_ok blobs s \<Longrightarrow> Seek off whence s = Inr s' \<Longrightarrow> stream_ok blobs s'"
  by (auto simp: Seek_def split: if_splits)

lemma BlobStream_init_stream_ok:
  "contiguous_from 0 refs \<Longrightarrow> chunks_present blobs refs \<Longrightarrow>
     BlobStream_init refs hid m = Inr s \<Longrightarrow> stream_ok blobs s"
  by (auto simp: BlobStream_init_def stream_ok_def cache_ok_def split: if_splits)

lemma ex_stream_ok: "stream_ok ex_blobs (ex_stream\<lparr> max_unbound_read := m, s_offset := c \<rparr>)"
  by (simp add: stream_ok_def cache_ok_def chunks_present_def ex_stream_def ex_refs_def ex_blobs_def)

lemma ex_file_content: "file_content ex_blobs ex_refs = ''foobarbazqu''"
  by (simp add: file_content_def ex_refs_def ex_blobs_def)

section \<open>Reading\<close>

text \<open>
  C3. For a stream over a non-empty reference list that is contiguous from offset 0 (hence
  sorted by offset) and backed by the store, of total size \<open>N\<close>, and for \<open>0 \<le> k \<le> N\<close>
  with \<open>N - k\<close> within the ceiling: \<open>Seek(k, SEEK_SET)\<close> succeeds, and the following
  \<open>Read(N - k)\<close> returns the bytes from position \<open>k\<close> to the end of the concatenation of
  the chunks, which has \<open>N\<close> bytes.
\<close>

theorem Seek_Read_roundtrip:
  assumes "stream_ok blobs s" and "0 \<le> k" and "k \<le> s_length s"
    and "s_length s - k \<le> max_unbound_read s"
  shows "Seek k SEEK_SET s = Inr (s\<lparr> s_offset := k \<rparr>) \<and>
         fst (Read blobs (Some (s_length s - k)) (s\<lparr> s_offset := k \<rparr>))
           = Inr (drop (nat k) (file_content blobs (blob_refs s))) \<and>
         int (length (file_content blobs (blob_refs s))) = s_length s"
proof -
  have ok: "stream_ok blobs (s\<lparr> s_offset := k \<rparr>)" using assms(1) by simp
  from Read_result [OF ok, of "s_length s - k"] assms stream_ok_length [OF assms(1)]
  show ?thesis by (simp add: Seek_def)
qed

theorem Seek_Read_roundtrip_witness:
  "stream_ok ex_blobs ex_stream \<and> (0::int) \<le> 4 \<and> 4 \<le> s_length ex_stream \<and>
   s_length ex_stream - 4 \<le> max_unbound_read ex_stream \<and>
   fst (Read ex_blobs (Some 7) (ex_stream\<lparr> s_offset := 4 \<rparr>)) = Inr ''arbazqu'' \<and>
   file_content ex_blobs (blob_refs ex_stream) = ''foobarbazqu''"
proof -
  have h: "stream_ok ex_blobs ex_stream"
    by (simp add: stream_ok_def cache_ok_def chunks_present_def ex_stream_def ex_refs_def ex_blobs_def)
  have c: "file_content ex_blobs (blob_refs ex_stream) = ''foobarbazqu''"
    by (simp add: file_content_def ex_stream_def ex_refs_def ex_blobs_def)
  from Seek_Read_roundtrip [OF h, of 4] c h show ?thesis
    by (simp add: ex_stream_def)
qed

text \<open>
  C7. Reading past the end truncates and is no error: from cursor 0, \<open>Read(N + 100)\<close>
  within the ceiling returns the \<open>N\<close> bytes of the file; from any cursor \<open>c \<ge> 0\<close>, a
  \<open>Read(L)\<close> with \<open>L\<close> at least the remainder \<open>N - c\<close> returns the bytes from \<open>c\<close> to
  the end, which may be fewer than \<open>L\<close>.
\<close>

theorem Read_past_end_truncates:
  assumes "stream_ok blobs s"
  shows "(s_offset s = 0 \<longrightarrow> s_length s + 100 \<le> max_unbound_read s \<longrightarrow>
            fst (Read blobs (Some (s_length s + 100)) s) = Inr (file_content blobs (blob_refs s)) \<and>
            int (length (file_content blobs (blob_refs s))) = s_length s) \<and>
         (0 \<le> s_offset s \<longrightarrow> s_length s - s_offset s \<le> L \<longrightarrow> L \<le> max_unbound_read s \<longrightarrow>
            fst (Read blobs (Some L) s)
              = Inr (drop (nat (s_offset s)) (file_content blobs (blob_refs s))))"
  using Read_result [OF assms, of "s_length s + 100"] Read_result [OF assms, of L]
        stream_ok_length [OF assms]
  by auto

theorem Read_past_end_truncates_witness:
  "stream_ok ex_blobs (ex_stream\<lparr> max_unbound_read := 1000, s_offset := 0 \<rparr>) \<and>
   s_length ex_stream + 100 \<le> 1000 \<and>
   fst (Read ex_blobs (Some 111) (ex_stream\<lparr> max_unbound_read := 1000, s_offset := 0 \<rparr>))
     = Inr ''foobarbazqu'' \<and>
   fst (Read ex_blobs (Some 20) (ex_stream\<lparr> max_unbound_read := 1000, s_offset := 0 \<rparr>))
     = Inr ''foobarbazqu''"
  using Read_past_end_truncates [OF ex_stream_ok [where m = 1000 and c = 0], of 20] ex_stream_ok [where m = 1000 and c = 0]
        ex_file_content
  by (simp add: ex_stream_def)

section \<open>Seeking\<close>

text \<open>
  C8, as stated, fails: \<open>Seek(-1, SEEK_SET)\<close> succeeds and leaves the cursor at -1.
\<close>

theorem Seek_negative_accepted:
  "Seek (- 1) SEEK_SET ex_stream = Inr (ex_stream\<lparr> s_offset := - 1 \<rparr>)"
  by (simp add: Seek_def)

text \<open>
  C8, amended. A \<open>Seek\<close> with one of the three known origins never fails and checks no
  bound: the cursor becomes the offset, the cursor plus the offset, or the total size plus
  the offset, negative or not. On a well-formed stream, a cursor at or beyond the total
  size, and a negative one as well, makes a following read within the ceiling return
  empty bytes.
\<close>

theorem Seek_unchecked:
  assumes "whence = SEEK_SET \<or> whence = SEEK_CUR \<or> whence = SEEK_END"
  shows "\<exists>s'. Seek off whence s = Inr s' \<and>
           Tell s' = (if whence = SEEK_SET then off
                      else if whence = SEEK_CUR then Tell s + off
                      else size_BlobStream s + off) \<and>
           (stream_ok blobs s \<longrightarrow> L \<le> max_unbound_read s \<longrightarrow>
              Tell s' < 0 \<or> size_BlobStream s \<le> Tell s' \<longrightarrow>
              fst (Read blobs (Some L) s') = Inr [])"
proof -
  obtain c where s': "Seek off whence s = Inr (s\<lparr> s_offset := c \<rparr>)"
    and c: "c = (if whence = SEEK_SET then off
                 else if whence = SEEK_CUR then Tell s + off
                 else size_BlobStream s + off)"
    using assms by (auto simp: Seek_def Tell_def size_BlobStream_def SEEK_SET_def SEEK_CUR_def SEEK_END_def)
  have "fst (Read blobs (Some L) (s\<lparr> s_offset := c \<rparr>)) = Inr []"
    if ok: "stream_ok blobs s" and L: "L \<le> max_unbound_read s" and out: "c < 0 \<or> s_length s \<le> c"
  proof (cases "c < 0")
    case True
    with L show ?thesis by (simp add: Read_negative_cursor)
  next
    case False
    with out have "s_length s \<le> c" by simp
    with stream_ok_length [OF ok]
    have "drop (nat c) (file_content blobs (blob_refs s)) = []" by simp
    with Read_result [of blobs "s\<lparr> s_offset := c \<rparr>" L] ok L False show ?thesis by simp
  qed
  with s' c show ?thesis
    by (auto simp: Tell_def size_BlobStream_def)
qed

theorem Seek_unchecked_witness:
  "(SEEK_END = SEEK_SET \<or> SEEK_END = SEEK_CUR \<or> SEEK_END = SEEK_END) \<and>
   Seek (- 20) SEEK_END ex_stream = Inr (ex_stream\<lparr> s_offset := - 9 \<rparr>) \<and>
   Seek 5 SEEK_END ex_stream = Inr (ex_stream\<lparr> s_offset := 16 \<rparr>) \<and>
   stream_ok ex_blobs ex_stream \<and> 5 \<le> max_unbound_read ex_stream \<and>
   Tell (ex_stream\<lparr> s_offset := - 9 \<rparr>) < 0 \<and>
   size_BlobStream ex_stream \<le> Tell (ex_stream\<lparr> s_offset := 16 \<rparr>) \<and>
   fst (Read ex_blobs (Some 5) (ex_stream\<lparr> s_offset := - 9 \<rparr>)) = Inr [] \<and>
   fst (Read ex_blobs (Some 5) (ex_stream\<lparr> s_offset := 16 \<rparr>)) = Inr []"
proof -
  have 1: "Seek (- 20) SEEK_END ex_stream = Inr (ex_stream\<lparr> s_offset := - 9 \<rparr>)"
    "Seek 5 SEEK_END ex_stream = Inr (ex_stream\<lparr> s_offset := 16 \<rparr>)"
    by (simp_all add: Seek_def ex_stream_def SEEK_SET_def SEEK_CUR_def SEEK_END_def)
  have 2: "stream_ok ex_blobs ex_stream"
    using ex_stream_ok [where m = 100 and c = 0] by (simp add: ex_stream_def)
  from Seek_unchecked [of SEEK_END "- 20" ex_stream ex_blobs 5]
       Seek_unchecked [of SEEK_END 5 ex_stream ex_blobs 5] 1 2
  show ?thesis
    by (simp add: Tell_def size_BlobStream_def ex_stream_def)
qed

section \<open>Opening a file\<close>

text \<open>
  Composing the empty sequence of ids persists an empty reference list, so the metadata
  backend can hold one.
\<close>

lemma AddFileWithUnknownHash_empty:
  "AddFileWithUnknownHash sha256 ord blobs db [] =
     (Inr (FromBytes (sha256 [])),
      db\<lparr> hash_blob_refs := (hash_blob_refs db)(FromBytes (sha256 []) \<mapsto> []) \<rparr>)"
  by (simp add: AddFileWithUnknownHash_def Batch_def Let_def)

text \<open>
  C9, as stated, fails: a path bound to a hash whose reference list is empty is neither
  without content nor without references, and no reader is returned: the constructor's
  \<open>IndexError\<close> leaves \<open>OpenFile\<close>.
\<close>

theorem OpenFile_empty_reference_list:
  "OpenFile ex_db 100 ''/empty'' None = Inl IndexError"
  by (simp add: OpenFile_def ex_db_def BlobStream_init_def)

text \<open>
  C9, amended. \<open>OpenFile\<close> fails with \<open>FileHasNoContent\<close> exactly when the path has no
  binding; with a binding, it fails with \<open>MissingBlobReferences\<close> of the bound hash when
  that hash has no reference list, and is otherwise the construction of a \<open>BlobStream\<close>
  over the hash's list, which for a non-empty list returns a reader over that list, with
  that hash id and cursor 0.
\<close>

theorem OpenFile_outcomes:
  "(OpenFile db m client_path max_timestamp = Inl FileHasNoContent
      \<longleftrightarrow> path_infos db client_path max_timestamp = None) \<and>
   (\<forall>path_info. path_infos db client_path max_timestamp = Some path_info \<longrightarrow>
      (case hash_blob_refs db (FromBytes (hash_entry_sha256 path_info)) of
         None \<Rightarrow> OpenFile db m client_path max_timestamp
                   = Inl (MissingBlobReferences (FromBytes (hash_entry_sha256 path_info)))
       | Some refs \<Rightarrow>
           OpenFile db m client_path max_timestamp
             = BlobStream_init refs (FromBytes (hash_entry_sha256 path_info)) m \<and>
           (refs \<noteq> [] \<longrightarrow>
              (\<exists>s. OpenFile db m client_path max_timestamp = Inr s \<and> blob_refs s = refs \<and>
                   hash_id s = FromBytes (hash_entry_sha256 path_info) \<and> Tell s = 0))))"
  by (auto simp: OpenFile_def BlobStream_init_def Tell_def split: option.splits)

theorem OpenFile_outcomes_witness:
  "path_infos ex_db ''/tmp/x'' None = None \<and>
   OpenFile ex_db 100 ''/tmp/x'' None = Inl FileHasNoContent \<and>
   path_infos ex_db ''/gone'' None = Some \<lparr> hash_entry_sha256 = ''/gone'' \<rparr> \<and>
   OpenFile ex_db 100 ''/gone'' None = Inl (MissingBlobReferences (FromBytes ''/gone'')) \<and>
   path_infos ex_db ''/foo'' None = Some \<lparr> hash_entry_sha256 = ''/foo'' \<rparr> \<and>
   hash_blob_refs ex_db (FromBytes ''/foo'') = Some ex_refs \<and> ex_refs \<noteq> [] \<and>
   OpenFile ex_db 100 ''/foo'' None = Inr (ex_stream\<lparr> hash_id := FromBytes ''/foo'' \<rparr>)"
  using OpenFile_outcomes [of ex_db 100 "''/tmp/x''" None]
        OpenFile_outcomes [of ex_db 100 "''/gone''" None]
        OpenFile_outcomes [of ex_db 100 "''/foo''" None]
  by (simp add: ex_db_def BlobStream_init_def ex_refs_def ex_stream_def)

section \<open>Composing a file from blob ids\<close>

lemma concat_Batch_loop: "concat (Batch_loop items n batch) = batch @ items"
  by (induction items arbitrary: batch) auto

lemma concat_Batch: "concat (Batch items n) = items"
  by (simp add: Batch_def concat_Batch_loop)

lemma map_of_ReadBlobs:
  "k \<in> set ids \<Longrightarrow> map_of (ReadBlobs blobs ids) k = Some (blobs k)"
  by (induction ids) (auto simp: ReadBlobs_def)

lemma raise_if_missing_present:
  "\<forall>k\<in>set ids. blobs k \<noteq> None \<Longrightarrow> raise_if_missing (ReadBlobs blobs ids) = Inr ()"
  by (induction ids) (auto simp: ReadBlobs_def)

lemma raise_if_missing_absent:
  "\<exists>k\<in>set ids. blobs k = None \<Longrightarrow>
     \<exists>k\<in>set ids. blobs k = None \<and> raise_if_missing (ReadBlobs blobs ids) = Inl (BlobNotFound k)"
proof (induction ids)
  case Nil
  then show ?case by simp
next
  case (Cons a ids)
  show ?case
  proof (cases "blobs a")
    case None
    then show ?thesis by (auto simp: ReadBlobs_def)
  next
    case (Some d)
    with Cons.prems have "\<exists>k\<in>set ids. blobs k = None" by auto
    from Cons.IH [OF this] Some show ?thesis by (auto simp: ReadBlobs_def)
  qed
qed

lemma add_blob_ids_present:
  "set batch \<subseteq> set ids \<Longrightarrow> \<forall>k\<in>set batch. blobs k \<noteq> None \<Longrightarrow>
     \<exists>refs' off'. add_blob_ids (ReadBlobs blobs ids) batch (refs, off, sha)
        = Inr (refs', off', sha @ concat (map (\<lambda>k. the (blobs k)) batch))"
proof (induction batch arbitrary: refs off sha)
  case Nil
  then show ?case by simp
next
  case (Cons a batch)
  then obtain d where d: "blobs a = Some d" by auto
  from Cons.prems have a: "map_of (ReadBlobs blobs ids) a = Some (Some d)"
    by (simp add: map_of_ReadBlobs d)
  from Cons.prems have "set batch \<subseteq> set ids" "\<forall>k\<in>set batch. blobs k \<noteq> None" by auto
  from Cons.IH [OF this, of "refs @ [\<lparr> offset = off, size_ref = length d, blob_id = a \<rparr>]"
                  "off + length d" "sha @ d"]
  show ?case using a d by simp
qed

lemma add_batches_present:
  "\<forall>xs. set (ord xs) = set xs \<Longrightarrow> \<forall>k\<in>set (concat batches). blobs k \<noteq> None \<Longrightarrow>
     \<exists>refs' off'. add_batches ord blobs batches (refs, off, sha)
        = Inr (refs', off', sha @ concat (map (\<lambda>k. the (blobs k)) (concat batches)))"
proof (induction batches arbitrary: refs off sha)
  case Nil
  then show ?case by simp
next
  case (Cons batch batches)
  let ?ids = "ord (remdups batch)"
  have ids: "set ?ids = set batch" using Cons.prems(1) by simp
  have pres: "\<forall>k\<in>set batch. blobs k \<noteq> None" using Cons.prems(2) by simp
  have 1: "raise_if_missing (ReadBlobs blobs ?ids) = Inr ()"
    using raise_if_missing_present [of ?ids blobs] ids pres by simp
  obtain refs' off' where 2: "add_blob_ids (ReadBlobs blobs ?ids) batch (refs, off, sha)
        = Inr (refs', off', sha @ concat (map (\<lambda>k. the (blobs k)) batch))"
    using add_blob_ids_present [of batch ?ids blobs refs off sha] ids pres by auto
  from Cons.prems(2) have "\<forall>k\<in>set (concat batches). blobs k \<noteq> None" by simp
  from Cons.IH [OF Cons.prems(1) this, of refs' off' "sha @ concat (map (\<lambda>k. the (blobs k)) batch)"]
  show ?case using 1 2 by (simp add: Let_def)
qed

lemma add_batches_absent:
  "\<forall>xs. set (ord xs) = set xs \<Longrightarrow> \<exists>k\<in>set (concat batches). blobs k = None \<Longrightarrow>
     \<exists>k\<in>set (concat batches). blobs k = None \<and>
        add_batches ord blobs batches st = Inl (BlobNotFound k)"
proof (induction batches arbitrary: st)
  case Nil
  then show ?case by simp
next
  case (Cons batch batches)
  let ?ids = "ord (remdups batch)"
  have ids: "set ?ids = set batch" using Cons.prems(1) by simp
  show ?case
  proof (cases "\<exists>k\<in>set batch. blobs k = None")
    case True
    with ids have "\<exists>k\<in>set ?ids. blobs k = None" by simp
    from raise_if_missing_absent [OF this] ids show ?thesis
      by (auto simp: Let_def)
  next
    case False
    then have pres: "\<forall>k\<in>set batch. blobs k \<noteq> None" by simp
    have 1: "raise_if_missing (ReadBlobs blobs ?ids) = Inr ()"
      using raise_if_missing_present [of ?ids blobs] ids pres by simp
    obtain refs off sha where st: "st = (refs, off, sha)" by (cases st) auto
    obtain st' where 2: "add_blob_ids (ReadBlobs blobs ?ids) batch st = Inr st'"
      using add_blob_ids_present [of batch ?ids blobs refs off sha] ids pres st by auto
    from False Cons.prems(2) have "\<exists>k\<in>set (concat batches). blobs k = None" by auto
    from Cons.IH [OF Cons.prems(1) this, of st'] 1 2 show ?thesis
      by (auto simp: Let_def)
  qed
qed

lemma AddFileWithUnknownHash_present:
  assumes "\<forall>xs. set (ord xs) = set xs" and "map blobs blob_ids = map Some datas"
  shows "fst (AddFileWithUnknownHash sha256 ord blobs db blob_ids)
           = Inr (FromBytes (sha256 (concat datas)))"
proof -
  have "map (\<lambda>k. the (blobs k)) blob_ids = map the (map blobs blob_ids)" by simp
  also have "\<dots> = datas" unfolding assms(2) by (simp add: comp_def)
  finally have datas: "map (\<lambda>k. the (blobs k)) blob_ids = datas" .
  have pres: "\<forall>k\<in>set (concat (Batch blob_ids BLOBS_READ_BATCH_SIZE)). blobs k \<noteq> None"
  proof
    fix k assume "k \<in> set (concat (Batch blob_ids BLOBS_READ_BATCH_SIZE))"
    then have "blobs k \<in> set (map blobs blob_ids)" by (simp add: concat_Batch)
    then show "blobs k \<noteq> None" unfolding assms(2) by auto
  qed
  from add_batches_present [OF assms(1) pres, of "[]" 0 "[]"] datas show ?thesis
    by (auto simp: AddFileWithUnknownHash_def concat_Batch Let_def)
qed

text \<open>
  C1. When every id of the sequence has its blob in the backend, \<open>AddFileWithUnknownHash\<close>
  returns the hash id of the SHA-256 digest of the chunks' bytes concatenated in the order
  of the sequence. Batching, deduplication inside a batch and the order \<open>ord\<close> in which
  the backend returns the blobs do not show in the result: a second call whose chunks
  concatenate to the same bytes, whatever its sequence of ids, its return order and the
  state of the metadata backend, returns the same hash; so do two calls over the same
  sequence.
\<close>

theorem AddFileWithUnknownHash_hash:
  assumes "\<forall>xs. set (ord xs) = set xs" and "\<forall>xs. set (ord' xs) = set xs"
    and "map blobs blob_ids = map Some datas"
    and "map blobs' blob_ids' = map Some datas'"
    and "concat datas' = concat datas"
  shows "fst (AddFileWithUnknownHash sha256 ord blobs db blob_ids)
           = Inr (FromBytes (sha256 (concat datas))) \<and>
         fst (AddFileWithUnknownHash sha256 ord' blobs' db' blob_ids')
           = fst (AddFileWithUnknownHash sha256 ord blobs db blob_ids)"
  using AddFileWithUnknownHash_present [OF assms(1) assms(3), of sha256 db]
        AddFileWithUnknownHash_present [OF assms(2) assms(4), of sha256 db'] assms(5)
  by simp

theorem AddFileWithUnknownHash_hash_witness:
  "map ex_blobs [1, 2, 1] = map Some [''f'', ''oobarbazqu'', ''f''] \<and>
   fst (AddFileWithUnknownHash id rev ex_blobs ex_db [1, 2, 1])
     = Inr (FromBytes ''foobarbazquf'') \<and>
   fst (AddFileWithUnknownHash id id ex_blobs ex_db [1, 2, 1])
     = fst (AddFileWithUnknownHash id rev ex_blobs ex_db [1, 2, 1]) \<and>
   fst (AddFileWithUnknownHash id id (\<lambda>k. if k = 7 then Some ''foobarbazquf'' else None)
          ex_db [7])
     = fst (AddFileWithUnknownHash id rev ex_blobs ex_db [1, 2, 1]) \<and>
   fst (AddFileWithUnknownHash id rev ex_blobs ex_db (replicate 201 1 @ [2]))
     = Inr (FromBytes (concat (replicate 201 ''f'') @ ''oobarbazqu''))"
  using AddFileWithUnknownHash_hash
          [of rev id ex_blobs "[1, 2, 1]" "[''f'', ''oobarbazqu'', ''f'']"
              ex_blobs "[1, 2, 1]" "[''f'', ''oobarbazqu'', ''f'']" id ex_db ex_db]
        AddFileWithUnknownHash_hash
          [of rev id ex_blobs "[1, 2, 1]" "[''f'', ''oobarbazqu'', ''f'']"
              "\<lambda>k. if k = 7 then Some ''foobarbazquf'' else None" "[7]"
              "[''foobarbazquf'']" id ex_db ex_db]
        AddFileWithUnknownHash_hash
          [of rev id ex_blobs "replicate 201 1 @ [2]" "replicate 201 ''f'' @ [''oobarbazqu'']"
              ex_blobs "replicate 201 1 @ [2]" "replicate 201 ''f'' @ [''oobarbazqu'']"
              id ex_db ex_db]
  by (simp add: ex_blobs_def)

text \<open>
  C2. When some id of the sequence has no blob in the backend, the call fails with
  \<open>BlobNotFound\<close> of such an id, and the metadata backend is as before the call: the one
  write of line 198 comes after all batches.
\<close>

theorem AddFileWithUnknownHash_missing:
  assumes "\<forall>xs. set (ord xs) = set xs" and "\<exists>k\<in>set blob_ids. blobs k = None"
  shows "\<exists>k\<in>set blob_ids. blobs k = None \<and>
           AddFileWithUnknownHash sha256 ord blobs db blob_ids = (Inl (BlobNotFound k), db)"
proof -
  from assms(2) have "\<exists>k\<in>set (concat (Batch blob_ids BLOBS_READ_BATCH_SIZE)). blobs k = None"
    by (simp add: concat_Batch)
  from add_batches_absent [OF assms(1) this, of "([], 0, [])"] show ?thesis
    by (auto simp: AddFileWithUnknownHash_def concat_Batch)
qed

theorem AddFileWithUnknownHash_missing_witness:
  "ex_blobs 3 = None \<and>
   AddFileWithUnknownHash id rev ex_blobs ex_db [1, 2, 3, 1] = (Inl (BlobNotFound 3), ex_db)"
  using AddFileWithUnknownHash_missing [of rev "[1, 2, 3, 1]" ex_blobs id ex_db]
  by (auto simp: ex_blobs_def split: if_splits)

end
